theory Spec2Isabelle
  imports Complex_Main
begin

section \<open>The voice controller of \<open>src/services/voiceController.ts\<close>\<close>

text \<open>
  The class \<open>VoiceController\<close> is embedded as a record of its fields together with the
  part of the host (browser) it talks to: the recognition engine, the synthesis queue,
  the timer table and the random source. Every method and every event handler of the
  class is a function from state to state; the calls the controller makes on its
  collaborators (recognition start/stop/abort, synthesis cancel/speak, the application
  callbacks, the resolution of a promise) are appended to a log of effects.
  Transcripts are ASCII strings.
\<close>

subsection \<open>Strings\<close>

definition startsWith :: "string \<Rightarrow> string \<Rightarrow> bool" where
  "startsWith s p = (take (length p) s = p)"

text \<open>\<open>s.includes(p)\<close>: \<open>p\<close> occurs in \<open>s\<close> as a contiguous substring.\<close>

fun includes_str :: "string \<Rightarrow> string \<Rightarrow> bool" where
  "includes_str [] p = (p = [])"
| "includes_str (c # cs) p = (startsWith (c # cs) p \<or> includes_str cs p)"

text \<open>\<open>keywords.some(p => command.includes(p))\<close>\<close>

definition some_includes :: "string list \<Rightarrow> string \<Rightarrow> bool" where
  "some_includes keywords command = list_ex (includes_str command) keywords"

text \<open>The class \<open>\w\<close> of a regular expression without flags: letters, digits, underscore.\<close>

definition isWordChar :: "char \<Rightarrow> bool" where
  "isWordChar c =
     (let n = (of_char c :: nat)
      in (97 \<le> n \<and> n \<le> 122) \<or> (65 \<le> n \<and> n \<le> 90) \<or> (48 \<le> n \<and> n \<le> 57) \<or> n = 95)"

fun isWordOpt :: "char option \<Rightarrow> bool" where
  "isWordOpt None = False"
| "isWordOpt (Some c) = isWordChar c"

text \<open>
  \<open>\b\<close> holds between two neighbouring positions when exactly one of them is a word
  character; the outside of the string counts as a non-word character.
\<close>

definition wordBoundary :: "char option \<Rightarrow> char option \<Rightarrow> bool" where
  "wordBoundary a b = (isWordOpt a \<noteq> isWordOpt b)"

fun headOpt :: "string \<Rightarrow> char option" where
  "headOpt [] = None"
| "headOpt (c # cs) = Some c"

fun lastOpt :: "char option \<Rightarrow> string \<Rightarrow> char option" where
  "lastOpt prev [] = prev"
| "lastOpt prev (c # cs) = lastOpt (Some c) cs"

text \<open>\<open>\bkw\b\<close> matched at the front of \<open>s\<close>, where \<open>prev\<close> is the character before \<open>s\<close>.\<close>

definition matchAt :: "string \<Rightarrow> char option \<Rightarrow> string \<Rightarrow> bool" where
  "matchAt kw prev s =
     (wordBoundary prev (headOpt s) \<and> startsWith s kw \<and>
      wordBoundary (lastOpt prev kw) (headOpt (drop (length kw) s)))"

fun searchFrom :: "string list \<Rightarrow> char option \<Rightarrow> string \<Rightarrow> bool" where
  "searchFrom kws prev [] = list_ex (\<lambda>kw. matchAt kw prev []) kws"
| "searchFrom kws prev (c # cs) =
     (list_ex (\<lambda>kw. matchAt kw prev (c # cs)) kws \<or> searchFrom kws (Some c) cs)"

text \<open>\<open>new RegExp(`\\b(${kws.join('|')})\\b`).test(s)\<close>\<close>

definition regexTest :: "string list \<Rightarrow> string \<Rightarrow> bool" where
  "regexTest kws s = searchFrom kws None s"

definition toLowerChar :: "char \<Rightarrow> char" where
  "toLowerChar c =
     (let n = (of_char c :: nat) in if 65 \<le> n \<and> n \<le> 90 then char_of (n + 32) else c)"

definition toUpperChar :: "char \<Rightarrow> char" where
  "toUpperChar c =
     (let n = (of_char c :: nat) in if 97 \<le> n \<and> n \<le> 122 then char_of (n - 32) else c)"

definition toLowerCase :: "string \<Rightarrow> string" where
  "toLowerCase s = map toLowerChar s"

definition isSpace :: "char \<Rightarrow> bool" where
  "isSpace c = (let n = (of_char c :: nat) in n = 32 \<or> (9 \<le> n \<and> n \<le> 13))"

definition trim :: "string \<Rightarrow> string" where
  "trim s = rev (dropWhile isSpace (rev (dropWhile isSpace s)))"

text \<open>\<open>name.charAt(0).toUpperCase() + name.slice(1)\<close>\<close>

fun capitalize :: "string \<Rightarrow> string" where
  "capitalize [] = []"
| "capitalize (c # cs) = toUpperChar c # cs"

subsection \<open>State\<close>

record config =
  autoStart :: bool
  language :: string
  provideFeedback :: bool

text \<open>A partial configuration, as the constructor and \<open>updateConfig\<close> receive it.\<close>

record options =
  optAutoStart :: "bool option"
  optLanguage :: "string option"
  optProvideFeedback :: "bool option"

datatype setting = Haptic | Audio

datatype effect =
    Status string bool
  | RecStart
  | RecStartThrew
  | RecStop
  | RecAbort
  | SynthCancel
  | SynthSpeak nat string
  | Resolve nat
  | NavigationOpen
  | TextReadOpen
  | SettingsOpen
  | ModeClose
  | ToggleSetting setting bool
  | CheckBattery

text \<open>
  The two closures handed to \<open>window.setTimeout\<close>: the plain restart of \<open>onend\<close> and the
  restart of \<open>onerror\<close>, which clears the recovery flag first.
\<close>

datatype timerAction = Restart | RecoveryRestart

record timer =
  tid :: nat
  action :: timerAction
  delay :: real

text \<open>An utterance with the \<open>wasListening\<close> snapshot its two handlers close over.\<close>

record utterance =
  uttId :: nat
  uttText :: string
  wasListening :: bool

record sys =
  recognition :: bool
  recLang :: string
  isListening :: bool
  speechSynthesis :: bool
  currentUtterance :: "nat option"
  config :: config
  restartTimer :: "nat option"
  errorRetryCount :: nat
  isErrorRecovery :: bool
  isSpeaking :: bool
  started :: bool
  timers :: "timer list"
  nextTimer :: nat
  queue :: "utterance list"
  nextUtt :: nat
  rng :: "(nat \<times> nat) list"
  batteryStatus :: string
  effects :: "effect list"

text \<open>
  Fields of the class: \<open>recognition\<close> (is the engine object there), \<open>isListening\<close>,
  \<open>speechSynthesis\<close> (is \<open>window.speechSynthesis\<close> there), \<open>currentUtterance\<close>, \<open>config\<close>,
  \<open>restartTimer\<close>, \<open>errorRetryCount\<close>, \<open>isErrorRecovery\<close>, \<open>isSpeaking\<close>.
  Host: \<open>recLang\<close> is \<open>recognition.lang\<close>; \<open>started\<close> says that \<open>start()\<close> was called on the
  engine and neither an error nor an end event has fired since, in which case another
  \<open>start()\<close> throws; \<open>timers\<close> are the pending timeouts and \<open>nextTimer\<close> the next handle
  (handles are positive); \<open>queue\<close> holds the utterances given to the synthesiser whose
  terminal event has not fired yet; \<open>rng\<close> lists the values \<open>Math.random()\<close> is going to
  return, the pair \<open>(m, j)\<close> standing for the double \<open>m / 2^j\<close>; \<open>batteryStatus\<close> is what
  \<open>onCheckBattery()\<close> returns.
\<close>

definition emit :: "effect \<Rightarrow> sys \<Rightarrow> sys" where
  "emit e s = s\<lparr>effects := effects s @ [e]\<rparr>"

definition onVoiceStatusChange :: "string \<Rightarrow> bool \<Rightarrow> sys \<Rightarrow> sys" where
  "onVoiceStatusChange status listening s = emit (Status status listening) s"

definition clearTimeout :: "nat \<Rightarrow> sys \<Rightarrow> sys" where
  "clearTimeout t s = s\<lparr>timers := filter (\<lambda>x. tid x \<noteq> t) (timers s)\<rparr>"

text \<open>\<open>if (this.restartTimer) clearTimeout(this.restartTimer)\<close>: null and 0 are falsy.\<close>

definition clearRestartTimer :: "sys \<Rightarrow> sys" where
  "clearRestartTimer s =
     (case restartTimer s of
        None \<Rightarrow> s
      | Some t \<Rightarrow> if t \<noteq> 0 then clearTimeout t s else s)"

text \<open>\<open>this.restartTimer = window.setTimeout(callback, d)\<close>\<close>

definition setRestartTimer :: "timerAction \<Rightarrow> real \<Rightarrow> sys \<Rightarrow> sys" where
  "setRestartTimer a d s =
     s\<lparr>timers := timers s @ [\<lparr>tid = nextTimer s, action = a, delay = d\<rparr>],
       restartTimer := Some (nextTimer s),
       nextTimer := Suc (nextTimer s)\<rparr>"

text \<open>\<open>Math.random()\<close>: the next value of the random source (0 once it is used up).\<close>

definition mathRandom :: "sys \<Rightarrow> (nat \<times> nat) \<times> sys" where
  "mathRandom s = (case rng s of [] \<Rightarrow> ((0, 0), s) | r # rs \<Rightarrow> (r, s\<lparr>rng := rs\<rparr>))"

subsection \<open>Recognition errors and backoff\<close>

text \<open>
  Numbers are binary64 doubles: a product or a sum is the exact result rounded to 53
  significant bits, to nearest, ties to even. A non-negative double is written
  \<open>m / 2^j\<close> with natural numbers \<open>m\<close> and \<open>j\<close>, so that rounding works on natural
  numbers: \<open>round53 n / 2^j\<close> is the double nearest to \<open>n / 2^j\<close> (in the normal range).
\<close>

fun bitLength :: "nat \<Rightarrow> nat" where
  "bitLength n = (if n = 0 then 0 else Suc (bitLength (n div 2)))"

declare bitLength.simps [simp del]

text \<open>The quotient of \<open>n\<close> by \<open>2^k\<close>, rounded to nearest, ties to even.\<close>

definition roundHalfEven :: "nat \<Rightarrow> nat \<Rightarrow> nat" where
  "roundHalfEven k n =
     (let q = n div 2 ^ k; r = n mod 2 ^ k
      in if 2 * r < 2 ^ k then q
         else if 2 ^ k < 2 * r then q + 1
         else if even q then q else q + 1)"

definition round53 :: "nat \<Rightarrow> nat" where
  "round53 n = (let k = bitLength n - 53 in 2 ^ k * roundHalfEven k n)"

text \<open>
  \<open>Math.min(30000, Math.pow(2, errorRetryCount) * baseDelay) + jitter\<close> with
  \<open>jitter = Math.random() * 250\<close> and \<open>Math.random() = m / 2^j\<close>. The power of two times
  500 is exact or infinite, so the minimum is the exact natural number; the product
  \<open>m * 250 / 2^j\<close> is rounded, and so is its sum with the minimum.
\<close>

definition backoffDelay :: "nat \<Rightarrow> nat \<times> nat \<Rightarrow> real" where
  "backoffDelay n r =
     (case r of (m, j) \<Rightarrow>
        real (round53 (min 30000 (2 ^ n * 500) * 2 ^ j + round53 (m * 250))) / 2 ^ j)"

definition onerror :: "string \<Rightarrow> sys \<Rightarrow> sys" where
  "onerror err s0 =
     (let s = s0\<lparr>isListening := False\<rparr> in
      if err = ''aborted'' then s
      else if err = ''no-speech'' then s
      else
        let s = s\<lparr>isErrorRecovery := True\<rparr> in
        if err = ''not-allowed'' \<or> err = ''service-not-allowed'' then
          (let s = onVoiceStatusChange ''Microphone permission denied'' False s
           in s\<lparr>config := (config s)\<lparr>autoStart := False\<rparr>\<rparr>)
        else if err = ''audio-capture'' then
          (let s = onVoiceStatusChange ''Microphone not available'' False s
           in s\<lparr>config := (config s)\<lparr>autoStart := False\<rparr>\<rparr>)
        else
          let s = s\<lparr>errorRetryCount := errorRetryCount s + 1\<rparr>;
              (r, s) = mathRandom s;
              d = backoffDelay (errorRetryCount s) r;
              s = onVoiceStatusChange ''Voice connection issue. Retrying...'' False s;
              s = clearRestartTimer s
          in setRestartTimer RecoveryRestart d s)"

subsection \<open>Starting, and the session events\<close>

text \<open>
  \<open>recognition.start()\<close> throws when the engine is already started; the \<open>catch\<close> branch
  then calls the error handler itself with \<open>start-failed\<close>, unless a recovery is under way.
\<close>

definition startListening :: "sys \<Rightarrow> sys" where
  "startListening s0 =
     (let s = clearRestartTimer s0 in
      if recognition s \<and> \<not> isListening s then
        if started s then
          (let s = emit RecStartThrew s
           in if \<not> isErrorRecovery s then onerror ''start-failed'' s else s)
        else emit RecStart (s\<lparr>started := True\<rparr>)
      else s)"

definition onstart :: "sys \<Rightarrow> sys" where
  "onstart s = onVoiceStatusChange ''Listening...'' True (s\<lparr>isListening := True\<rparr>)"

definition onend :: "sys \<Rightarrow> sys" where
  "onend s0 =
     (let s = s0\<lparr>isListening := False\<rparr> in
      if isErrorRecovery s \<or> isSpeaking s then s
      else if autoStart (config s) then setRestartTimer Restart 250 (clearRestartTimer s)
      else onVoiceStatusChange ''Voice disabled'' False s)"

subsection \<open>Speaking\<close>

text \<open>
  The promise \<open>speak\<close> returns: already resolved, or resolved by the terminal event of
  the utterance with the given number (the effect \<open>Resolve\<close>).
\<close>

datatype promise = Resolved | Pending nat

definition speak :: "string \<Rightarrow> sys \<Rightarrow> promise \<times> sys" where
  "speak text s0 =
     (if \<not> speechSynthesis s0 \<or> \<not> provideFeedback (config s0) \<or> text = [] then (Resolved, s0)
      else
        let wl = (isListening s0 \<and> autoStart (config s0));
            s = emit SynthCancel s0;
            s = (if wl then
                   (let s = s\<lparr>isSpeaking := True\<rparr>
                    in if recognition s then emit RecStop s else s)
                 else s);
            u = nextUtt s;
            s = s\<lparr>currentUtterance := Some u,
                  queue := queue s @ [\<lparr>uttId = u, uttText = text, wasListening = wl\<rparr>],
                  nextUtt := Suc u\<rparr>;
            s = emit (SynthSpeak u text) s
        in (Pending u, s))"

text \<open>\<open>utterance.onend\<close> of the utterance \<open>u\<close>.\<close>

definition utterance_onend :: "utterance \<Rightarrow> sys \<Rightarrow> sys" where
  "utterance_onend u s0 =
     (let s = s0\<lparr>currentUtterance := None\<rparr>;
          s = (if wasListening u
               then startListening (clearRestartTimer (s\<lparr>isSpeaking := False\<rparr>))
               else s)
      in emit (Resolve (uttId u)) s)"

text \<open>\<open>utterance.onerror\<close>: the error code only decides what is written to the console.\<close>

definition utterance_onerror :: "utterance \<Rightarrow> string \<Rightarrow> sys \<Rightarrow> sys" where
  "utterance_onerror u err s0 =
     (let s = s0\<lparr>currentUtterance := None\<rparr>;
          s = (if wasListening u
               then startListening (clearRestartTimer (s\<lparr>isSpeaking := False\<rparr>))
               else s)
      in emit (Resolve (uttId u)) s)"

definition stopSpeaking :: "sys \<Rightarrow> sys" where
  "stopSpeaking s = (if speechSynthesis s then emit SynthCancel s else s)"

subsection \<open>Commands\<close>

definition navigation :: "string list" where
  "navigation = [''open navigation'', ''navigation'', ''navigate'']"

definition textRead :: "string list" where
  "textRead = [''open text'', ''text read'', ''read text'', ''open reader'']"

definition settings :: "string list" where
  "settings = [''open settings'', ''settings'', ''preferences'']"

definition close :: "string list" where
  "close = [''close'', ''go home'', ''home screen'', ''exit'', ''stop'', ''stop navigation'',
            ''stop text reader'']"

fun settingName :: "setting \<Rightarrow> string" where
  "settingName Haptic = ''haptic''"
| "settingName Audio = ''audio''"

definition toggleableSettings :: "(setting \<times> string list) list" where
  "toggleableSettings =
     [(Haptic, [''haptic'', ''haptics'', ''vibration'']),
      (Audio, [''audio'', ''sound'', ''feedback''])]"

definition onModifier :: "string list" where
  "onModifier = [''on'', ''enable'', ''start'']"

definition offModifier :: "string list" where
  "offModifier = [''off'', ''disable'', ''stop'']"

text \<open>\<open>if (this.config.provideFeedback) this.speak(text)\<close>, the promise dropped.\<close>

definition feedback :: "string \<Rightarrow> sys \<Rightarrow> sys" where
  "feedback text s = (if provideFeedback (config s) then snd (speak text s) else s)"

text \<open>
  The loop over \<open>toggleableSettings\<close>: \<open>Some\<close> when an iteration returned from the whole
  function, \<open>None\<close> when the loop ran to its end.
\<close>

fun toggleLoop :: "(setting \<times> string list) list \<Rightarrow> string \<Rightarrow> sys \<Rightarrow> sys option" where
  "toggleLoop [] command s = None"
| "toggleLoop ((name, keywords) # rest) command s =
     (if regexTest keywords command then
        (let capitalizedSetting = capitalize (settingName name) in
         if regexTest onModifier command then
           Some (feedback (capitalizedSetting @ '' enabled.'') (emit (ToggleSetting name True) s))
         else if regexTest offModifier command then
           Some (feedback (capitalizedSetting @ '' disabled.'') (emit (ToggleSetting name False) s))
         else toggleLoop rest command s)
      else toggleLoop rest command s)"

definition processVoiceCommand :: "string \<Rightarrow> sys \<Rightarrow> sys" where
  "processVoiceCommand command s =
     (if some_includes close command then
        feedback ''Returning to home screen'' (emit ModeClose (stopSpeaking s))
      else if some_includes navigation command then
        feedback ''Opening Navigation'' (emit NavigationOpen s)
      else if some_includes textRead command then
        feedback ''Opening Text Reader'' (emit TextReadOpen s)
      else if some_includes settings command then
        feedback ''Opening Settings'' (emit SettingsOpen s)
      else
        (case toggleLoop toggleableSettings command s of
           Some s' \<Rightarrow> s'
         | None \<Rightarrow>
             if includes_str command ''battery'' then
               (let s = emit CheckBattery s;
                    status = batteryStatus s
                in if status \<noteq> [] \<and> provideFeedback (config s) then snd (speak status s) else s)
             else s))"

text \<open>
  \<open>recognition.onresult\<close>. The event's \<open>results\<close> is \<open>None\<close> when the field is missing,
  otherwise the list of results, each the list of its alternatives' transcripts.
\<close>

definition onresult :: "string list list option \<Rightarrow> sys \<Rightarrow> sys" where
  "onresult results s0 =
     (let s = s0\<lparr>errorRetryCount := 0\<rparr> in
      case results of
        None \<Rightarrow> s
      | Some rs \<Rightarrow>
          if rs = [] \<or> last rs = [] then s
          else
            let transcript = trim (toLowerCase (hd (last rs))) in
            if transcript = [] then s
            else
              processVoiceCommand transcript
                (onVoiceStatusChange (''Heard: '' @ [CHR 0x22] @ transcript @ [CHR 0x22]) True s))"

subsection \<open>The public operations\<close>

definition stopListening :: "sys \<Rightarrow> sys" where
  "stopListening s0 =
     (let s = clearRestartTimer s0;
          s = (if recognition s then emit RecAbort s else s);
          s = s\<lparr>isListening := False\<rparr>
      in onVoiceStatusChange ''Voice paused'' False s)"

text \<open>\<open>{ ...config, ...newConfig }\<close>: a field of the partial configuration wins when present.\<close>

definition mergeConfig :: "config \<Rightarrow> options \<Rightarrow> config" where
  "mergeConfig c opts =
     \<lparr>autoStart = (case optAutoStart opts of None \<Rightarrow> autoStart c | Some b \<Rightarrow> b),
      language = (case optLanguage opts of None \<Rightarrow> language c | Some l \<Rightarrow> l),
      provideFeedback =
        (case optProvideFeedback opts of None \<Rightarrow> provideFeedback c | Some b \<Rightarrow> b)\<rparr>"

definition updateConfig :: "options \<Rightarrow> sys \<Rightarrow> sys" where
  "updateConfig newConfig s0 =
     (let s = s0\<lparr>config := mergeConfig (config s0) newConfig\<rparr>
      in if recognition s then s\<lparr>recLang := language (config s)\<rparr> else s)"

definition destroy :: "sys \<Rightarrow> sys" where
  "destroy s0 =
     (let s = clearRestartTimer s0;
          s = s\<lparr>config := (config s)\<lparr>autoStart := False\<rparr>\<rparr>;
          s = (if recognition s then emit RecAbort s else s)
      in if speechSynthesis s then emit SynthCancel s else s)"

subsection \<open>Construction\<close>

text \<open>What the host offers when the controller is built.\<close>

record host =
  hostRecognition :: bool
  hostSynthesis :: bool
  hostRandom :: "(nat \<times> nat) list"
  hostBattery :: string

definition defaults :: config where
  "defaults = \<lparr>autoStart = True, language = ''en-US'', provideFeedback = True\<rparr>"

definition setupVoiceRecognition :: "bool \<Rightarrow> sys \<Rightarrow> bool \<times> sys" where
  "setupVoiceRecognition api s =
     (if \<not> api then (False, onVoiceStatusChange ''Speech recognition not supported'' False s)
      else (True, s\<lparr>recognition := True, recLang := language (config s)\<rparr>))"

definition init :: "bool \<Rightarrow> sys \<Rightarrow> sys" where
  "init api s0 =
     (let (ok, s) = setupVoiceRecognition api s0
      in if ok \<and> autoStart (config s) then startListening s else s)"

definition newVoiceController :: "options \<Rightarrow> host \<Rightarrow> sys" where
  "newVoiceController opts h =
     init (hostRecognition h)
       \<lparr>recognition = False, recLang = [], isListening = False,
        speechSynthesis = hostSynthesis h, currentUtterance = None,
        config = mergeConfig defaults opts, restartTimer = None, errorRetryCount = 0,
        isErrorRecovery = False, isSpeaking = False, started = False, timers = [],
        nextTimer = 1, queue = [], nextUtt = 0, rng = hostRandom h,
        batteryStatus = hostBattery h, effects = []\<rparr>"

subsection \<open>Events\<close>

text \<open>
  Everything that makes the controller run: a call of a public operation by the
  application, an event of the recognition engine, a timeout that fires, a terminal
  event of an utterance. The engine counts as started until an error or end event fires;
  a timeout that fires leaves the timer table; an utterance whose terminal event fires
  leaves the queue. A timeout or an utterance that is not there does not fire.
\<close>

datatype event =
    Start
  | Stop
  | Speak string
  | StopSpeaking
  | UpdateConfig options
  | Destroy
  | RecOnStart
  | RecOnEnd
  | RecOnResult "string list list option"
  | RecOnError string
  | TimerFire nat
  | UttOnEnd nat
  | UttOnError nat string

fun timerCallback :: "timerAction \<Rightarrow> sys \<Rightarrow> sys" where
  "timerCallback Restart s = startListening s"
| "timerCallback RecoveryRestart s = startListening (s\<lparr>isErrorRecovery := False\<rparr>)"

definition dequeue :: "nat \<Rightarrow> sys \<Rightarrow> sys" where
  "dequeue u s = s\<lparr>queue := filter (\<lambda>x. uttId x \<noteq> u) (queue s)\<rparr>"

fun step :: "event \<Rightarrow> sys \<Rightarrow> sys" where
  "step Start s = startListening s"
| "step Stop s = stopListening s"
| "step (Speak text) s = snd (speak text s)"
| "step StopSpeaking s = stopSpeaking s"
| "step (UpdateConfig newConfig) s = updateConfig newConfig s"
| "step Destroy s = destroy s"
| "step RecOnStart s = onstart s"
| "step RecOnEnd s = onend (s\<lparr>started := False\<rparr>)"
| "step (RecOnResult results) s = onresult results s"
| "step (RecOnError err) s = onerror err (s\<lparr>started := False\<rparr>)"
| "step (TimerFire t) s =
     (case find (\<lambda>x. tid x = t) (timers s) of
        None \<Rightarrow> s
      | Some x \<Rightarrow> timerCallback (action x) (clearTimeout t s))"
| "step (UttOnEnd u) s =
     (case find (\<lambda>x. uttId x = u) (queue s) of
        None \<Rightarrow> s
      | Some x \<Rightarrow> utterance_onend x (dequeue u s))"
| "step (UttOnError u err) s =
     (case find (\<lambda>x. uttId x = u) (queue s) of
        None \<Rightarrow> s
      | Some x \<Rightarrow> utterance_onerror x err (dequeue u s))"

fun run :: "event list \<Rightarrow> sys \<Rightarrow> sys" where
  "run [] s = s"
| "run (e # es) s = run es (step e s)"

subsection \<open>Notions used in the statements\<close>

text \<open>The three classes of recognition errors.\<close>

definition ignoredError :: "string \<Rightarrow> bool" where
  "ignoredError err = (err = ''aborted'' \<or> err = ''no-speech'')"

definition fatalError :: "string \<Rightarrow> bool" where
  "fatalError err =
     (err = ''not-allowed'' \<or> err = ''service-not-allowed'' \<or> err = ''audio-capture'')"

definition recoverableError :: "string \<Rightarrow> bool" where
  "recoverableError err = (\<not> ignoredError err \<and> \<not> fatalError err)"

text \<open>
  The timer discipline: at most one timeout is pending, and a pending timeout is the
  one whose handle \<open>restartTimer\<close> holds.
\<close>

definition timer_inv :: "sys \<Rightarrow> bool" where
  "timer_inv s =
     (nextTimer s \<noteq> 0 \<and> length (timers s) \<le> 1 \<and>
      list_all (\<lambda>x. tid x \<noteq> 0 \<and> restartTimer s = Some (tid x)) (timers s))"

definition tstate :: "sys \<Rightarrow> timer list \<times> nat option \<times> nat" where
  "tstate s = (timers s, restartTimer s, nextTimer s)"

text \<open>The application callbacks among the effects: the intents that were dispatched.\<close>

fun isCallback :: "effect \<Rightarrow> bool" where
  "isCallback NavigationOpen = True"
| "isCallback TextReadOpen = True"
| "isCallback SettingsOpen = True"
| "isCallback ModeClose = True"
| "isCallback (ToggleSetting n v) = True"
| "isCallback CheckBattery = True"
| "isCallback e = False"

definition callbacks :: "sys \<Rightarrow> effect list" where
  "callbacks s = filter isCallback (effects s)"

text \<open>What the loop over the toggleable settings dispatches, without the state.\<close>

fun toggleMatch :: "(setting \<times> string list) list \<Rightarrow> string \<Rightarrow> (setting \<times> bool) option" where
  "toggleMatch [] command = None"
| "toggleMatch ((name, keywords) # rest) command =
     (if regexTest keywords command \<and> regexTest onModifier command then Some (name, True)
      else if regexTest keywords command \<and> regexTest offModifier command then Some (name, False)
      else toggleMatch rest command)"

text \<open>
  The parser as the specification words it: an ordered table of rules, each a test on
  the transcript and the intent it emits; the first rule whose test holds wins. The
  keyword rules test substring containment of any keyword of their set; a toggle rule
  needs a keyword of the setting and a modifier, both contained as whole words.
\<close>

definition toggleTest :: "string list \<Rightarrow> string list \<Rightarrow> string \<Rightarrow> bool" where
  "toggleTest keywords modifier command =
     (regexTest keywords command \<and> regexTest modifier command)"

definition spec_rules :: "((string \<Rightarrow> bool) \<times> effect) list" where
  "spec_rules =
     [(some_includes close, ModeClose),
      (some_includes navigation, NavigationOpen),
      (some_includes textRead, TextReadOpen),
      (some_includes settings, SettingsOpen),
      (toggleTest [''haptic'', ''haptics'', ''vibration''] onModifier, ToggleSetting Haptic True),
      (toggleTest [''haptic'', ''haptics'', ''vibration''] offModifier, ToggleSetting Haptic False),
      (toggleTest [''audio'', ''sound'', ''feedback''] onModifier, ToggleSetting Audio True),
      (toggleTest [''audio'', ''sound'', ''feedback''] offModifier, ToggleSetting Audio False),
      (\<lambda>command. includes_str command ''battery'', CheckBattery)]"

definition spec_parse :: "string \<Rightarrow> effect option" where
  "spec_parse command = map_option snd (find (\<lambda>rule. fst rule command) spec_rules)"

text \<open>The transcript a result event yields, if any (the guards of \<open>onresult\<close>).\<close>

definition transcriptOf :: "string list list option \<Rightarrow> string option" where
  "transcriptOf results =
     (case results of
        None \<Rightarrow> None
      | Some rs \<Rightarrow>
          if rs = [] \<or> last rs = [] then None
          else if trim (toLowerCase (hd (last rs))) = [] then None
          else Some (trim (toLowerCase (hd (last rs)))))"

fun isResult :: "event \<Rightarrow> bool" where
  "isResult (RecOnResult r) = True"
| "isResult e = False"

text \<open>
  A double in \<open>[0, 1)\<close>, as \<open>Math.random()\<close> returns one: \<open>m / 2^j\<close> with a mantissa of
  at most 53 bits, below 1, and a multiple of \<open>2^-1022\<close> (so that its product with 250
  is zero or in the normal range).
\<close>

fun unitDouble :: "nat \<times> nat \<Rightarrow> bool" where
  "unitDouble (m, j) = (m < 2 ^ 53 \<and> j \<le> 1022 \<and> m < 2 ^ j)"


text \<open>A concrete controller for the examples: built with the defaults, session started.\<close>

definition exampleHost :: host where
  "exampleHost =
     \<lparr>hostRecognition = True, hostSynthesis = True, hostRandom = [(1, 1), (1, 2)],
      hostBattery = ''Battery at 80 percent''\<rparr>"

definition noOptions :: options where
  "noOptions = \<lparr>optAutoStart = None, optLanguage = None, optProvideFeedback = None\<rparr>"

definition exampleListening :: sys where
  "exampleListening = run [RecOnStart] (newVoiceController noOptions exampleHost)"

text \<open>The same controller after \<open>updateConfig({provideFeedback: false})\<close>.\<close>

definition exampleSilent :: sys where
  "exampleSilent = updateConfig (noOptions\<lparr>optProvideFeedback := Some False\<rparr>) exampleListening"

text \<open>
  The same controller after a network error, the end of the failed session, the
  backoff timeout and the start of the next session: one failure has been counted.
\<close>

definition exampleRetried :: sys where
  "exampleRetried =
     run [RecOnError ''network'', RecOnEnd, TimerFire 1, RecOnStart] exampleListening"

text \<open>The same controller when \<open>Math.random()\<close> is going to return \<open>1 - 2^-52\<close>.\<close>

definition exampleNearOne :: sys where
  "exampleNearOne = exampleListening\<lparr>rng := [(4503599627370495, 52)]\<rparr>"


section \<open>The example controller\<close>

lemma exampleListening_eq:
  "exampleListening =
     \<lparr>recognition = True, recLang = ''en-US'', isListening = True, speechSynthesis = True,
      currentUtterance = None,
      config = \<lparr>autoStart = True, language = ''en-US'', provideFeedback = True\<rparr>,
      restartTimer = None, errorRetryCount = 0, isErrorRecovery = False, isSpeaking = False,
      started = True, timers = [], nextTimer = 1, queue = [], nextUtt = 0,
      rng = [(1, 1), (1, 2)], batteryStatus = ''Battery at 80 percent'',
      effects = [RecStart, Status ''Listening...'' True]\<rparr>"
  by (simp add: exampleListening_def newVoiceController_def noOptions_def exampleHost_def
      init_def setupVoiceRecognition_def mergeConfig_def defaults_def startListening_def
      clearRestartTimer_def emit_def onstart_def onVoiceStatusChange_def Let_def)

section \<open>The timer discipline\<close>

lemma timer_inv_tstate: "tstate s' = tstate s \<Longrightarrow> timer_inv s' = timer_inv s"
  by (simp add: tstate_def timer_inv_def)

lemma tstate_emit [simp]: "tstate (emit e s) = tstate s"
  by (simp add: tstate_def emit_def)

lemma tstate_status [simp]: "tstate (onVoiceStatusChange m b s) = tstate s"
  by (simp add: onVoiceStatusChange_def)

lemma tstate_speak [simp]: "tstate (snd (speak text s)) = tstate s"
  by (simp add: speak_def Let_def tstate_def emit_def)

lemma tstate_feedback [simp]: "tstate (feedback text s) = tstate s"
  by (simp add: feedback_def)

lemma tstate_stopSpeaking [simp]: "tstate (stopSpeaking s) = tstate s"
  by (simp add: stopSpeaking_def)

lemma tstate_toggleLoop: "toggleLoop ts c s = Some s' \<Longrightarrow> tstate s' = tstate s"
  by (induction ts c s rule: toggleLoop.induct) (auto simp: Let_def split: if_splits)

lemma tstate_processVoiceCommand [simp]: "tstate (processVoiceCommand c s) = tstate s"
  by (auto simp: processVoiceCommand_def Let_def tstate_toggleLoop split: option.split)

lemma tstate_onresult [simp]: "tstate (onresult r s) = tstate (s\<lparr>errorRetryCount := 0\<rparr>)"
  by (simp add: onresult_def Let_def split: option.split)

lemma timer_inv_clear: "timer_inv s \<Longrightarrow> timers (clearRestartTimer s) = [] \<and> nextTimer (clearRestartTimer s) = nextTimer s"
  by (cases "timers s") (auto simp: timer_inv_def clearRestartTimer_def clearTimeout_def split: option.split)

lemma timer_inv_clearRestartTimer: "timer_inv s \<Longrightarrow> timer_inv (clearRestartTimer s)"
  using timer_inv_clear[of s] by (simp add: timer_inv_def)

lemma timer_inv_arm: "timer_inv s \<Longrightarrow> timer_inv (setRestartTimer a d (clearRestartTimer s))"
  using timer_inv_clear[of s] by (simp add: timer_inv_def setRestartTimer_def)

lemma timer_inv_frame:
  "timer_inv s \<Longrightarrow> timers s' = timers s \<Longrightarrow> restartTimer s' = restartTimer s \<Longrightarrow> nextTimer s' = nextTimer s \<Longrightarrow> timer_inv s'"
  by (simp add: timer_inv_def)

lemma onerror_ignored:
  "ignoredError err \<Longrightarrow> onerror err s = s\<lparr>isListening := False\<rparr>"
  by (auto simp: onerror_def ignoredError_def Let_def)

lemma onerror_fatal:
  assumes "fatalError err"
  shows "onerror err s =
     s\<lparr>isListening := False, isErrorRecovery := True,
       effects := effects s @
         [Status (if err = ''audio-capture'' then ''Microphone not available''
                  else ''Microphone permission denied'') False],
       config := (config s)\<lparr>autoStart := False\<rparr>\<rparr>"
  using assms
  by (auto simp: onerror_def fatalError_def Let_def onVoiceStatusChange_def emit_def)

lemma onerror_recoverable:
  assumes "recoverableError err"
  shows "onerror err s =
     (let s1 = s\<lparr>isListening := False, isErrorRecovery := True,
                 errorRetryCount := errorRetryCount s + 1\<rparr>;
          (r, s2) = mathRandom s1;
          s3 = onVoiceStatusChange ''Voice connection issue. Retrying...'' False s2
      in setRestartTimer RecoveryRestart (backoffDelay (errorRetryCount s + 1) r)
           (clearRestartTimer s3))"
  using assms
  by (simp add: onerror_def recoverableError_def ignoredError_def fatalError_def Let_def
      mathRandom_def split: list.split)

lemma timer_inv_arm':
  "timer_inv s \<Longrightarrow> tstate s' = tstate s \<Longrightarrow> timer_inv (setRestartTimer a d (clearRestartTimer s'))"
  using timer_inv_arm timer_inv_tstate by blast

lemma timer_inv_onerror: "timer_inv s \<Longrightarrow> timer_inv (onerror err s)"
proof -
  assume inv: "timer_inv s"
  consider (ign) "ignoredError err" | (fat) "fatalError err" | (rec) "recoverableError err"
    by (auto simp: recoverableError_def)
  then show ?thesis
  proof cases
    case ign
    then show ?thesis using inv by (simp add: onerror_ignored timer_inv_def)
  next
    case fat
    then show ?thesis using inv by (simp add: onerror_fatal timer_inv_def)
  next
    case rec
    show ?thesis
      by (simp add: onerror_recoverable[OF rec] Let_def mathRandom_def split: list.split)
        (auto intro!: timer_inv_arm'[OF inv] simp: tstate_def onVoiceStatusChange_def emit_def)
  qed
qed

lemma timer_inv_startListening: "timer_inv s \<Longrightarrow> timer_inv (startListening s)"
proof -
  assume "timer_inv s"
  then have c: "timer_inv (clearRestartTimer s)" by (rule timer_inv_clearRestartTimer)
  have e: "\<And>s' e. timer_inv s' \<Longrightarrow> timer_inv (emit e s')"
    by (simp add: timer_inv_tstate[of "emit _ _"])
  have st: "timer_inv (clearRestartTimer s\<lparr>started := True\<rparr>)"
    using c by (simp add: timer_inv_def)
  show ?thesis
    unfolding startListening_def Let_def
    using c st by (auto intro!: e timer_inv_onerror)
qed

lemma timer_inv_onend: "timer_inv s \<Longrightarrow> timer_inv (onend s)"
proof -
  assume inv: "timer_inv s"
  then have i: "timer_inv (s\<lparr>isListening := False\<rparr>)" by (simp add: timer_inv_def)
  show ?thesis
    unfolding onend_def Let_def
    using i timer_inv_arm[OF i] by (auto simp: timer_inv_tstate[of "onVoiceStatusChange _ _ _"])
qed

lemma timer_inv_utterance_onend: "timer_inv s \<Longrightarrow> timer_inv (utterance_onend u s)"
proof -
  assume inv: "timer_inv s"
  then have i: "timer_inv (s\<lparr>currentUtterance := None\<rparr>)" "timer_inv (s\<lparr>currentUtterance := None, isSpeaking := False\<rparr>)"
    by (simp_all add: timer_inv_def)
  show ?thesis
    unfolding utterance_onend_def Let_def
    using i timer_inv_startListening[OF timer_inv_clearRestartTimer[OF i(2)]]
    by (auto simp: timer_inv_tstate[of "emit _ _"])
qed

lemma timer_inv_utterance_onerror: "timer_inv s \<Longrightarrow> timer_inv (utterance_onerror u err s)"
proof -
  assume inv: "timer_inv s"
  then have i: "timer_inv (s\<lparr>currentUtterance := None\<rparr>)" "timer_inv (s\<lparr>currentUtterance := None, isSpeaking := False\<rparr>)"
    by (simp_all add: timer_inv_def)
  show ?thesis
    unfolding utterance_onerror_def Let_def
    using i timer_inv_startListening[OF timer_inv_clearRestartTimer[OF i(2)]]
    by (auto simp: timer_inv_tstate[of "emit _ _"])
qed

lemma timer_inv_stopListening: "timer_inv s \<Longrightarrow> timer_inv (stopListening s)"
  using timer_inv_clear[of s]
  by (auto simp: stopListening_def Let_def timer_inv_def onVoiceStatusChange_def emit_def
      clearRestartTimer_def clearTimeout_def split: option.split)

lemma timers_stopListening: "timer_inv s \<Longrightarrow> timers (stopListening s) = []"
  using timer_inv_clear[of s]
  by (auto simp: stopListening_def Let_def onVoiceStatusChange_def emit_def)

lemma timer_inv_destroy: "timer_inv s \<Longrightarrow> timer_inv (destroy s)"
  using timer_inv_clear[of s]
  by (auto simp: destroy_def Let_def timer_inv_def emit_def
      clearRestartTimer_def clearTimeout_def split: option.split)

lemma timer_inv_updateConfig: "timer_inv s \<Longrightarrow> timer_inv (updateConfig c s)"
  by (simp add: updateConfig_def Let_def timer_inv_def)

lemma timer_inv_fire: "timer_inv s \<Longrightarrow> timer_inv (timerCallback a (clearTimeout t s))"
proof -
  assume inv: "timer_inv s"
  then have c: "timer_inv (clearTimeout t s)"
    by (cases "timers s") (auto simp: timer_inv_def clearTimeout_def)
  then have c': "timer_inv (clearTimeout t s\<lparr>isErrorRecovery := False\<rparr>)"
    by (simp add: timer_inv_def)
  show ?thesis
    using c c' by (cases a) (auto intro: timer_inv_startListening)
qed

lemma timer_inv_step: "timer_inv s \<Longrightarrow> timer_inv (step e s)"
proof (cases e)
  case (Speak x) then show "timer_inv s \<Longrightarrow> ?thesis" by (simp add: timer_inv_tstate[of "snd (speak _ _)"])
next
  case RecOnEnd
  assume "timer_inv s" then have "timer_inv (s\<lparr>started := False\<rparr>)" by (simp add: timer_inv_def)
  then show ?thesis using RecOnEnd by (simp add: timer_inv_onend)
next
  case (RecOnError x)
  assume "timer_inv s" then have "timer_inv (s\<lparr>started := False\<rparr>)" by (simp add: timer_inv_def)
  then show ?thesis using RecOnError by (simp add: timer_inv_onerror)
next
  case (RecOnResult r)
  assume "timer_inv s" then have "timer_inv (s\<lparr>errorRetryCount := 0\<rparr>)" by (simp add: timer_inv_def)
  then show ?thesis using RecOnResult by (simp add: timer_inv_tstate[of "onresult _ _"])
next
  case RecOnStart
  assume "timer_inv s" then show ?thesis using RecOnStart by (simp add: onstart_def timer_inv_def onVoiceStatusChange_def emit_def)
next
  case (UttOnEnd u)
  assume "timer_inv s" then have "timer_inv (dequeue u s)" by (simp add: timer_inv_def dequeue_def)
  then show ?thesis using UttOnEnd \<open>timer_inv s\<close> by (auto split: option.split intro: timer_inv_utterance_onend)
next
  case (UttOnError u er)
  assume "timer_inv s" then have "timer_inv (dequeue u s)" by (simp add: timer_inv_def dequeue_def)
  then show ?thesis using UttOnError \<open>timer_inv s\<close> by (auto split: option.split intro: timer_inv_utterance_onerror)
next
  case (TimerFire t)
  assume "timer_inv s" then show ?thesis using TimerFire by (auto split: option.split intro: timer_inv_fire)
qed (auto simp: timer_inv_startListening timer_inv_stopListening timer_inv_destroy timer_inv_updateConfig timer_inv_tstate[of "stopSpeaking _"])

lemma timer_inv_run: "timer_inv s \<Longrightarrow> timer_inv (run es s)"
  by (induction es arbitrary: s) (auto intro: timer_inv_step)

lemma timer_inv_new: "timer_inv (newVoiceController opts h)"
proof -
  let ?s = "\<lparr>recognition = False, recLang = [], isListening = False,
        speechSynthesis = hostSynthesis h, currentUtterance = None,
        config = mergeConfig defaults opts, restartTimer = None, errorRetryCount = 0,
        isErrorRecovery = False, isSpeaking = False, started = False, timers = [],
        nextTimer = 1, queue = [], nextUtt = 0, rng = hostRandom h,
        batteryStatus = hostBattery h, effects = []\<rparr>"
  have 0: "timer_inv ?s" by (simp add: timer_inv_def)
  have 1: "timer_inv (?s\<lparr>recognition := True, recLang := l\<rparr>)" for l
    by (simp add: timer_inv_def)
  have "timer_inv (init api ?s)" for api
    unfolding init_def setupVoiceRecognition_def
    using 0 1 timer_inv_startListening[OF 1]
    by (simp add: Let_def timer_inv_tstate[of "onVoiceStatusChange _ _ _"])
  then show ?thesis by (simp add: newVoiceController_def)
qed


lemma timers_arm:
  assumes "timer_inv s" and "tstate s' = tstate s"
  shows "map tid (timers (setRestartTimer a d (clearRestartTimer s'))) = [nextTimer s]"
proof -
  have "timer_inv s'"
    using assms(1) by (simp only: timer_inv_tstate[OF assms(2)])
  from timer_inv_clear[OF this]
  have c: "timers (clearRestartTimer s') = []"
    "nextTimer (clearRestartTimer s') = nextTimer s'" by simp_all
  have n: "nextTimer s' = nextTimer s"
    using assms(2) by (simp add: tstate_def)
  show ?thesis
    by (simp add: setRestartTimer_def c n)
qed

lemma timers_onerror_recoverable:
  assumes i: "timer_inv s" and r: "recoverableError err"
  shows "map tid (timers (onerror err s)) = [nextTimer s]"
proof -
  let ?s1 = "s\<lparr>isListening := False, isErrorRecovery := True,
                  errorRetryCount := errorRetryCount s + 1\<rparr>"
  obtain x s2 where m: "mathRandom ?s1 = (x, s2)" by (cases "mathRandom ?s1")
  then have "tstate s2 = tstate s"
    by (cases "rng s") (auto simp: mathRandom_def tstate_def)
  then have t: "tstate (onVoiceStatusChange ''Voice connection issue. Retrying...'' False s2) =
      tstate s"
    by simp
  have "onerror err s =
      setRestartTimer RecoveryRestart (backoffDelay (errorRetryCount s + 1) x)
        (clearRestartTimer (onVoiceStatusChange ''Voice connection issue. Retrying...'' False s2))"
    using m by (simp add: onerror_recoverable[OF r])
  with timers_arm[OF i t] show ?thesis by simp
qed

lemma timers_onend_restart:
  assumes i: "timer_inv s" and c: "\<not> isErrorRecovery s" "\<not> isSpeaking s" "autoStart (config s)"
  shows "map tid (timers (onend s)) = [nextTimer s]"
proof -
  have t: "tstate (s\<lparr>isListening := False\<rparr>) = tstate s"
    by (simp add: tstate_def)
  have "onend s = setRestartTimer Restart 250 (clearRestartTimer (s\<lparr>isListening := False\<rparr>))"
    using c by (simp add: onend_def)
  with timers_arm[OF i t] show ?thesis by simp
qed

text \<open>
  C5. At every instant at most one timer is pending: in every state the controller
  reaches from its construction, through any sequence of operations and events, the
  timer table holds at most one timeout, and a pending timeout is the one whose handle
  the field \<open>restartTimer\<close> holds. The two operations that arm a timer, the backoff of
  a recoverable error and the restart at the end of a session, clear it first: after
  either, the only pending timeout is the new one.
\<close>

theorem at_most_one_timer:
  "let s = run es (newVoiceController opts h)
   in length (timers s) \<le> 1 \<and>
      list_all (\<lambda>x. restartTimer s = Some (tid x)) (timers s) \<and>
      (recoverableError err \<longrightarrow> map tid (timers (onerror err s)) = [nextTimer s]) \<and>
      (\<not> isErrorRecovery s \<and> \<not> isSpeaking s \<and> autoStart (config s) \<longrightarrow>
         map tid (timers (onend s)) = [nextTimer s])"
proof -
  have i: "timer_inv (run es (newVoiceController opts h))"
    by (rule timer_inv_run[OF timer_inv_new])
  then have "length (timers (run es (newVoiceController opts h))) \<le> 1 \<and>
      list_all (\<lambda>x. restartTimer (run es (newVoiceController opts h)) = Some (tid x))
        (timers (run es (newVoiceController opts h)))"
    by (simp add: timer_inv_def list_all_iff)
  with timers_onerror_recoverable[OF i] timers_onend_restart[OF i] show ?thesis
    unfolding Let_def by blast
qed

theorem at_most_one_timer_witness:
  "recoverableError ''network'' \<and>
   length (timers (run [RecOnStart] (newVoiceController noOptions exampleHost))) \<le> 1 \<and>
   map tid (timers (onerror ''network''
     (run [RecOnStart] (newVoiceController noOptions exampleHost)))) = [1] \<and>
   map tid (timers (onend (run [RecOnStart] (newVoiceController noOptions exampleHost)))) = [1]"
proof -
  have r: "recoverableError ''network''"
    by (simp add: recoverableError_def ignoredError_def fatalError_def)
  have c: "\<not> isErrorRecovery exampleListening \<and> \<not> isSpeaking exampleListening \<and>
      autoStart (config exampleListening)" "nextTimer exampleListening = 1"
    by (simp_all add: exampleListening_eq)
  note T = at_most_one_timer[of "[RecOnStart]" noOptions exampleHost "''network''",
      unfolded Let_def, folded exampleListening_def]
  from T r c have "length (timers exampleListening) \<le> 1 \<and>
      map tid (timers (onerror ''network'' exampleListening)) = [1] \<and>
      map tid (timers (onend exampleListening)) = [1]"
    by simp
  with r show ?thesis
    by (simp only: exampleListening_def)
qed

section \<open>The command parser\<close>

lemma callbacks_emit: "callbacks (emit e s) = callbacks s @ (if isCallback e then [e] else [])"
  by (simp add: callbacks_def emit_def)

lemma callbacks_speak: "callbacks (snd (speak text s)) = callbacks s"
  by (simp add: speak_def Let_def callbacks_def emit_def)

lemma callbacks_feedback: "callbacks (feedback text s) = callbacks s"
  by (simp add: feedback_def callbacks_speak)

lemma callbacks_stopSpeaking: "callbacks (stopSpeaking s) = callbacks s"
  by (simp add: stopSpeaking_def callbacks_emit)

lemma toggleLoop_None: "(toggleLoop ts c s = None) = (toggleMatch ts c = None)"
  by (induction ts c s rule: toggleLoop.induct) (auto simp: Let_def)

lemma toggleLoop_skip:
  "\<not> (regexTest kws c \<and> (regexTest onModifier c \<or> regexTest offModifier c)) \<Longrightarrow>
     toggleLoop ((name, kws) # ts) c s = toggleLoop ts c s"
  by (auto simp: Let_def)

lemma toggleLoop_Some:
  "toggleLoop ts c s = Some s' \<Longrightarrow>
     \<exists>n v. toggleMatch ts c = Some (n, v) \<and> callbacks s' = callbacks s @ [ToggleSetting n v]"
proof (induction ts)
  case Nil
  then show ?case by simp
next
  case (Cons a ts)
  obtain name kws where a: "a = (name, kws)" by (cases a)
  consider (on) "regexTest kws c" "regexTest onModifier c"
    | (off) "regexTest kws c" "\<not> regexTest onModifier c" "regexTest offModifier c"
    | (skip) "\<not> (regexTest kws c \<and> (regexTest onModifier c \<or> regexTest offModifier c))"
    by blast
  then show ?case
  proof cases
    case on
    with Cons.prems a
    have "s' = feedback (capitalize (settingName name) @ '' enabled.'')
                 (emit (ToggleSetting name True) s)"
      by (simp add: Let_def)
    then have "callbacks s' = callbacks s @ [ToggleSetting name True]"
      by (simp add: callbacks_feedback callbacks_emit)
    moreover have "toggleMatch (a # ts) c = Some (name, True)" using on a by simp
    ultimately show ?thesis by blast
  next
    case off
    with Cons.prems a
    have "s' = feedback (capitalize (settingName name) @ '' disabled.'')
                 (emit (ToggleSetting name False) s)"
      by (simp add: Let_def)
    then have "callbacks s' = callbacks s @ [ToggleSetting name False]"
      by (simp add: callbacks_feedback callbacks_emit)
    moreover have "toggleMatch (a # ts) c = Some (name, False)" using off a by simp
    ultimately show ?thesis by blast
  next
    case skip
    then have "toggleLoop ts c s = Some s'"
      using Cons.prems a toggleLoop_skip[OF skip] by simp
    moreover have "toggleMatch (a # ts) c = toggleMatch ts c" using skip a by auto
    ultimately show ?thesis using Cons.IH by simp
  qed
qed

text \<open>The intent a transcript is mapped to, read off the branches of the source.\<close>

lemma callbacks_processVoiceCommand:
  "callbacks (processVoiceCommand c s) = callbacks s @
     (if some_includes close c then [ModeClose]
      else if some_includes navigation c then [NavigationOpen]
      else if some_includes textRead c then [TextReadOpen]
      else if some_includes settings c then [SettingsOpen]
      else case toggleMatch toggleableSettings c of
             Some (n, v) \<Rightarrow> [ToggleSetting n v]
           | None \<Rightarrow> if includes_str c ''battery'' then [CheckBattery] else [])"
proof (cases "toggleLoop toggleableSettings c s")
  case None
  then have "toggleMatch toggleableSettings c = None"
    by (simp add: toggleLoop_None)
  with None show ?thesis
    by (simp add: processVoiceCommand_def callbacks_feedback callbacks_emit
        callbacks_stopSpeaking callbacks_speak Let_def)
next
  case (Some s')
  from toggleLoop_Some[OF Some] obtain n v where
    "toggleMatch toggleableSettings c = Some (n, v)"
    "callbacks s' = callbacks s @ [ToggleSetting n v]" by blast
  with Some show ?thesis
    by (simp add: processVoiceCommand_def callbacks_feedback callbacks_emit
        callbacks_stopSpeaking)
qed

lemma toggleMatch_sound:
  "toggleMatch ts c = Some (n, v) \<Longrightarrow>
     \<exists>kws. (n, kws) \<in> set ts \<and> regexTest kws c \<and>
           regexTest (if v then onModifier else offModifier) c"
  by (induction ts c rule: toggleMatch.induct) (auto split: if_splits)

lemma spec_parse_chain:
  "spec_parse c =
     (if some_includes close c then Some ModeClose
      else if some_includes navigation c then Some NavigationOpen
      else if some_includes textRead c then Some TextReadOpen
      else if some_includes settings c then Some SettingsOpen
      else case toggleMatch toggleableSettings c of
             Some (n, v) \<Rightarrow> Some (ToggleSetting n v)
           | None \<Rightarrow> if includes_str c ''battery'' then Some CheckBattery else None)"
  by (simp add: spec_parse_def spec_rules_def toggleableSettings_def toggleTest_def)

lemma includes_close_settings: "some_includes close ''close settings''"
  by (simp add: some_includes_def close_def startsWith_def)

lemma startsWith_includes: "startsWith s kw \<Longrightarrow> includes_str s kw"
  by (cases s) (auto simp: startsWith_def)

lemma searchFrom_includes:
  "searchFrom kws prev s \<Longrightarrow> \<exists>kw \<in> set kws. includes_str s kw"
proof (induction s arbitrary: prev)
  case Nil
  then show ?case
    by (auto simp: list_ex_iff matchAt_def dest: startsWith_includes)
next
  case (Cons c cs)
  from Cons.prems consider (here) "list_ex (\<lambda>kw. matchAt kw prev (c # cs)) kws"
    | (later) "searchFrom kws (Some c) cs" by auto
  then show ?case
  proof cases
    case here
    then show ?thesis
      by (auto simp: list_ex_iff matchAt_def dest: startsWith_includes)
  next
    case later
    from Cons.IH[OF later] show ?thesis by auto
  qed
qed

lemma regexTest_includes: "regexTest kws c \<Longrightarrow> some_includes kws c"
  by (auto simp: regexTest_def some_includes_def list_ex_iff dest: searchFrom_includes)

lemmas string_eval =
  some_includes_def close_def navigation_def textRead_def settings_def startsWith_def

lemmas regex_eval =
  regexTest_def matchAt_def wordBoundary_def isWordChar_def startsWith_def
  onModifier_def offModifier_def toggleableSettings_def

text \<open>
  C7. Command parsing is first-match-wins against the fixed priority order close/home,
  navigation, text-read, settings, toggles, battery: the callback that
  \<open>processVoiceCommand\<close> invokes is the intent of the first rule of the ordered table
  \<open>spec_rules\<close> whose test holds, and none when no test holds; the keyword rules test
  substring containment of any keyword of their set, and a toggle rule holds only if
  a keyword of its set is contained in the transcript. The transcript "close settings"
  matches the settings rule too, and dispatches the close/home intent.
\<close>

theorem first_match_wins:
  "callbacks (processVoiceCommand command s) =
     callbacks s @ (case spec_parse command of None \<Rightarrow> [] | Some intent \<Rightarrow> [intent]) \<and>
   map snd spec_rules =
     [ModeClose, NavigationOpen, TextReadOpen, SettingsOpen, ToggleSetting Haptic True,
      ToggleSetting Haptic False, ToggleSetting Audio True, ToggleSetting Audio False,
      CheckBattery] \<and>
   (spec_parse command = Some (ToggleSetting n v) \<longrightarrow>
      (\<exists>keywords. (n, keywords) \<in> set toggleableSettings \<and> some_includes keywords command)) \<and>
   some_includes settings ''close settings'' \<and>
   spec_parse ''close settings'' = Some ModeClose \<and>
   callbacks (processVoiceCommand ''close settings'' s) = callbacks s @ [ModeClose]"
proof -
  have 1: "callbacks (processVoiceCommand c s) =
     callbacks s @ (case spec_parse c of None \<Rightarrow> [] | Some intent \<Rightarrow> [intent])" for c
    by (simp add: callbacks_processVoiceCommand spec_parse_chain split: option.split)
  have 2: "spec_parse ''close settings'' = Some ModeClose"
    by (simp add: spec_parse_chain includes_close_settings)
  have 3: "some_includes settings ''close settings''"
    by (simp add: some_includes_def settings_def startsWith_def)
  have 4: "map snd spec_rules =
     [ModeClose, NavigationOpen, TextReadOpen, SettingsOpen, ToggleSetting Haptic True,
      ToggleSetting Haptic False, ToggleSetting Audio True, ToggleSetting Audio False,
      CheckBattery]"
    by (simp add: spec_rules_def)
  have 5: "\<exists>keywords. (n, keywords) \<in> set toggleableSettings \<and> some_includes keywords command"
    if "spec_parse command = Some (ToggleSetting n v)"
  proof -
    from that have "toggleMatch toggleableSettings command = Some (n, v)"
      by (auto simp: spec_parse_chain split: if_splits option.splits)
    from toggleMatch_sound[OF this] show ?thesis
      using regexTest_includes by blast
  qed
  show ?thesis
    using 1[of command] 1[of "''close settings''"] 2 3 4 5 by simp
qed

theorem first_match_wins_witness:
  "callbacks (processVoiceCommand ''open navigation'' exampleListening) =
     callbacks exampleListening @ [NavigationOpen] \<and>
   spec_parse ''turn haptic off'' = Some (ToggleSetting Haptic False) \<and>
   (\<exists>keywords. (Haptic, keywords) \<in> set toggleableSettings \<and>
      some_includes keywords ''turn haptic off'')"
proof -
  have 1: "spec_parse ''open navigation'' = Some NavigationOpen"
    by (simp add: spec_parse_chain string_eval)
  have c: "\<not> some_includes close ''turn haptic off''"
    "\<not> some_includes navigation ''turn haptic off''"
    "\<not> some_includes textRead ''turn haptic off''"
    "\<not> some_includes settings ''turn haptic off''"
    by (simp_all add: string_eval)
  have m: "toggleMatch toggleableSettings ''turn haptic off'' = Some (Haptic, False)"
    by (simp add: regex_eval)
  have 2: "spec_parse ''turn haptic off'' = Some (ToggleSetting Haptic False)"
    by (simp add: spec_parse_chain c m)
  from 1 first_match_wins[of "''open navigation''" exampleListening]
  have 3: "callbacks (processVoiceCommand ''open navigation'' exampleListening) =
     callbacks exampleListening @ [NavigationOpen]"
    by simp
  from 2 first_match_wins[of "''turn haptic off''" exampleListening Haptic False]
  have "\<exists>keywords. (Haptic, keywords) \<in> set toggleableSettings \<and>
      some_includes keywords ''turn haptic off''"
    by blast
  with 2 3 show ?thesis by blast
qed

text \<open>
  C8. A toggle intent is emitted only when a keyword of a toggleable setting and an
  on/off modifier both occur in the transcript as whole words: "turn haptic off"
  dispatches the toggle intent for haptic with value false; "haptic" alone dispatches
  nothing and leaves the controller as it was.
\<close>

theorem toggle_needs_keyword_and_modifier:
  "(callbacks (processVoiceCommand command s) = callbacks s @ [ToggleSetting n v] \<longrightarrow>
      (\<exists>keywords. (n, keywords) \<in> set toggleableSettings \<and> regexTest keywords command) \<and>
      regexTest (if v then onModifier else offModifier) command) \<and>
   callbacks (processVoiceCommand ''turn haptic off'' s) =
     callbacks s @ [ToggleSetting Haptic False] \<and>
   processVoiceCommand ''haptic'' s = s"
proof -
  have 1: "(\<exists>keywords. (n, keywords) \<in> set toggleableSettings \<and> regexTest keywords command) \<and>
      regexTest (if v then onModifier else offModifier) command"
    if "callbacks (processVoiceCommand command s) = callbacks s @ [ToggleSetting n v]"
  proof -
    from that have "toggleMatch toggleableSettings command = Some (n, v)"
      by (auto simp add: callbacks_processVoiceCommand split: if_splits option.splits)
    from toggleMatch_sound[OF this] show ?thesis by blast
  qed
  have c: "\<not> some_includes close ''turn haptic off''"
    "\<not> some_includes navigation ''turn haptic off''"
    "\<not> some_includes textRead ''turn haptic off''"
    "\<not> some_includes settings ''turn haptic off''"
    by (simp_all add: string_eval)
  have m: "toggleMatch toggleableSettings ''turn haptic off'' = Some (Haptic, False)"
    by (simp add: regex_eval)
  have 2: "callbacks (processVoiceCommand ''turn haptic off'' s) =
     callbacks s @ [ToggleSetting Haptic False]"
    by (simp add: callbacks_processVoiceCommand c m)
  have h: "\<not> some_includes close ''haptic''"
    "\<not> some_includes navigation ''haptic''"
    "\<not> some_includes textRead ''haptic''"
    "\<not> some_includes settings ''haptic''"
    "\<not> includes_str ''haptic'' ''battery''"
    by (simp_all add: string_eval)
  have "toggleMatch toggleableSettings ''haptic'' = None"
    by (simp add: regex_eval)
  then have l: "toggleLoop toggleableSettings ''haptic'' s = None"
    by (simp add: toggleLoop_None)
  have 3: "processVoiceCommand ''haptic'' s = s"
    unfolding processVoiceCommand_def by (simp only: h l if_False option.case)
  show ?thesis using 1 2 3 by blast
qed

theorem toggle_needs_keyword_and_modifier_witness:
  "callbacks (processVoiceCommand ''turn haptic off'' exampleListening) =
     callbacks exampleListening @ [ToggleSetting Haptic False] \<and>
   (\<exists>keywords. (Haptic, keywords) \<in> set toggleableSettings \<and>
      regexTest keywords ''turn haptic off'') \<and>
   regexTest offModifier ''turn haptic off''"
  using toggle_needs_keyword_and_modifier[of "''turn haptic off''" exampleListening Haptic False]
  by simp

text \<open>
  C10. The close/home keywords include "stop" and "exit", and the close rule is tried
  before the toggle rule: every transcript that contains "stop" dispatches the
  mode-close intent and nothing else, so never a toggle, although "stop" is also an
  off-modifier and "stop haptic" would otherwise be a toggle of haptic to off.
\<close>

theorem stop_closes_never_toggles:
  "''stop'' \<in> set close \<and> ''exit'' \<in> set close \<and> ''stop'' \<in> set offModifier \<and>
   (includes_str command ''stop'' \<longrightarrow>
      callbacks (processVoiceCommand command s) = callbacks s @ [ModeClose]) \<and>
   toggleMatch toggleableSettings ''stop haptic'' = Some (Haptic, False) \<and>
   callbacks (processVoiceCommand ''stop haptic'' s) = callbacks s @ [ModeClose]"
proof -
  have 1: "callbacks (processVoiceCommand c s) = callbacks s @ [ModeClose]"
    if "includes_str c ''stop''" for c
  proof -
    from that have "some_includes close c"
      by (simp add: some_includes_def close_def)
    then show ?thesis by (simp add: callbacks_processVoiceCommand)
  qed
  have 2: "includes_str ''stop haptic'' ''stop''"
    by (simp add: startsWith_def)
  have 3: "toggleMatch toggleableSettings ''stop haptic'' = Some (Haptic, False)"
    by (simp add: regex_eval)
  have 4: "''stop'' \<in> set close \<and> ''exit'' \<in> set close \<and> ''stop'' \<in> set offModifier"
    by (simp add: close_def offModifier_def)
  show ?thesis using 1[of command] 1[OF 2] 3 4 by blast
qed

theorem stop_closes_never_toggles_witness:
  "includes_str ''please stop the vibration'' ''stop'' \<and>
   callbacks (processVoiceCommand ''please stop the vibration'' exampleListening) =
     callbacks exampleListening @ [ModeClose]"
proof -
  have "includes_str ''please stop the vibration'' ''stop''"
    by (simp add: startsWith_def)
  then show ?thesis
    using stop_closes_never_toggles[of "''please stop the vibration''" exampleListening]
    by blast
qed

section \<open>Backoff, speaking without feedback, stopping\<close>

lemma bitLength_le: "n < 2 ^ b \<Longrightarrow> bitLength n \<le> b"
proof (induction b arbitrary: n)
  case 0
  then show ?case by (simp add: bitLength.simps)
next
  case (Suc b)
  show ?case
  proof (cases "n = 0")
    case True
    then show ?thesis by (simp add: bitLength.simps)
  next
    case False
    from Suc.prems have "n div 2 < 2 ^ b" by simp
    from Suc.IH[OF this] False show ?thesis
      by (subst bitLength.simps) simp
  qed
qed

lemma bitLength_eq:
  "2 ^ b \<le> n \<Longrightarrow> n < 2 ^ Suc b \<Longrightarrow> bitLength n = Suc b"
proof (induction b arbitrary: n)
  case 0
  then have "n = 1" by simp
  then show ?case by (simp add: bitLength.simps)
next
  case (Suc b)
  from Suc.prems have "2 ^ b \<le> n div 2" "n div 2 < 2 ^ Suc b" "n \<noteq> 0"
    by auto
  from Suc.IH[OF this(1,2)] this(3) show ?case
    by (subst bitLength.simps) simp
qed

lemma roundHalfEven_bounds:
  assumes "2 ^ k dvd a" and "2 ^ k dvd b" and "a \<le> n" and "n \<le> b"
  shows "a \<le> 2 ^ k * roundHalfEven k n \<and> 2 ^ k * roundHalfEven k n \<le> b"
proof -
  let ?p = "(2::nat) ^ k"
  let ?q = "n div ?p"
  have p: "0 < ?p" by simp
  obtain a' where a: "a = ?p * a'" using assms(1) by (auto elim: dvdE)
  obtain b' where b: "b = ?p * b'" using assms(2) by (auto elim: dvdE)
  have n: "n = ?p * ?q + n mod ?p" by simp
  have lo: "a' \<le> ?q"
  proof -
    from assms(3) a have "?p * a' \<le> n" by simp
    then have "(?p * a') div ?p \<le> n div ?p" by (rule div_le_mono)
    then show ?thesis by simp
  qed
  have hi0: "?q \<le> b'"
  proof -
    from assms(4) b have "n \<le> ?p * b'" by simp
    then have "n div ?p \<le> (?p * b') div ?p" by (rule div_le_mono)
    also have "(?p * b') div ?p = b'" by simp
    finally show ?thesis .
  qed
  have hi1: "?q + 1 \<le> b'" if "n mod ?p \<noteq> 0"
  proof (rule ccontr)
    assume "\<not> ?q + 1 \<le> b'"
    with hi0 have "?q = b'" by simp
    with n b have "n = b + n mod ?p" by simp
    with that assms(4) show False by simp
  qed
  have r: "roundHalfEven k n = ?q \<or> (roundHalfEven k n = ?q + 1 \<and> n mod ?p \<noteq> 0)"
  proof (cases "n mod ?p = 0")
    case True
    then show ?thesis by (simp add: roundHalfEven_def Let_def)
  next
    case False
    then show ?thesis by (auto simp: roundHalfEven_def Let_def)
  qed
  then show ?thesis
  proof
    assume "roundHalfEven k n = ?q"
    with lo hi0 a b show ?thesis by simp
  next
    assume h: "roundHalfEven k n = ?q + 1 \<and> n mod ?p \<noteq> 0"
    then have e: "roundHalfEven k n = ?q + 1" by simp
    from h hi1 have "?q + 1 \<le> b'" by simp
    then have u: "?p * (?q + 1) \<le> ?p * b'" by (rule mult_le_mono2)
    from lo have "a' \<le> ?q + 1" by simp
    then have l: "?p * a' \<le> ?p * (?q + 1)" by (rule mult_le_mono2)
    show ?thesis unfolding e a b using l u by blast
  qed
qed

lemma round53_bounds:
  assumes "a \<le> n" and "n \<le> b" and "b < 2 ^ (53 + j)" and "2 ^ j dvd a" and "2 ^ j dvd b"
  shows "a \<le> round53 n \<and> round53 n \<le> b"
proof -
  from assms(2,3) have "n < 2 ^ (53 + j)" by simp
  then have "bitLength n \<le> 53 + j" by (rule bitLength_le)
  then have k: "bitLength n - 53 \<le> j" by simp
  then have "(2::nat) ^ (bitLength n - 53) dvd 2 ^ j" by (rule le_imp_power_dvd)
  then have "2 ^ (bitLength n - 53) dvd a" "2 ^ (bitLength n - 53) dvd b"
    using assms(4,5) by (auto intro: dvd_trans)
  from roundHalfEven_bounds[OF this assms(1,2)] show ?thesis
    by (simp add: round53_def Let_def)
qed

lemma backoffDelay_bounds:
  assumes "m < 2 ^ j"
  shows "real (min 30000 (500 * 2 ^ n)) \<le> backoffDelay n (m, j) \<and>
         backoffDelay n (m, j) \<le> real (min 30000 (500 * 2 ^ n)) + 250"
proof -
  let ?base = "min 30000 (2 ^ n * 500) :: nat"
  let ?J = "round53 (m * 250)"
  have "m * 250 \<le> 250 * 2 ^ j" using assms by simp
  moreover have "(250::nat) * 2 ^ j < 2 ^ (53 + j)"
    by (simp add: power_add)
  ultimately have J: "?J \<le> 250 * 2 ^ j"
    using round53_bounds[of 0 "m * 250" "250 * 2 ^ j" j] by simp
  let ?S = "?base * 2 ^ j + ?J"
  have 1: "?base * 2 ^ j \<le> ?S" by simp
  have 2: "?S \<le> (?base + 250) * 2 ^ j" using J by (simp add: algebra_simps)
  have "?base + 250 \<le> 30250" by simp
  then have "(?base + 250) * 2 ^ j \<le> 30250 * 2 ^ j" by (rule mult_le_mono1)
  also have "\<dots> < 2 ^ (53 + j)" by (simp add: power_add)
  finally have 3: "(?base + 250) * 2 ^ j < 2 ^ (53 + j)" .
  from round53_bounds[OF 1 2 3]
  have r: "?base * 2 ^ j \<le> round53 ?S" "round53 ?S \<le> (?base + 250) * 2 ^ j" by simp_all
  from r(1) have "real (?base * 2 ^ j) \<le> real (round53 ?S)"
    by (rule of_nat_mono)
  then have "real ?base * 2 ^ j \<le> real (round53 ?S)"
    by simp
  then have lo: "real ?base \<le> real (round53 ?S) / 2 ^ j"
    by (simp add: pos_le_divide_eq)
  from r(2) have "real (round53 ?S) \<le> real ((?base + 250) * 2 ^ j)"
    by (rule of_nat_mono)
  then have "real (round53 ?S) \<le> (real ?base + 250) * 2 ^ j"
    by simp
  then have hi: "real (round53 ?S) / 2 ^ j \<le> real ?base + 250"
    by (simp add: pos_divide_le_eq)
  from lo hi show ?thesis
    by (simp add: backoffDelay_def mult.commute)
qed

lemma backoffDelay_near_one: "backoffDelay 1 (4503599627370495, 52) = 1250"
proof -
  have b1: "bitLength 1125899906842623750 = 60"
    using bitLength_eq[of 59 1125899906842623750] by simp
  have r1: "round53 1125899906842623750 = 1125899906842623744"
    by (simp add: round53_def b1 roundHalfEven_def Let_def)
  have b2: "bitLength 5629499534213119744 = 63"
    using bitLength_eq[of 62 5629499534213119744] by simp
  have r2: "round53 5629499534213119744 = 5629499534213120000"
    by (simp add: round53_def b2 roundHalfEven_def Let_def)
  show ?thesis
    by (simp add: backoffDelay_def r1 r2)
qed

lemma backoffDelay_half: "backoffDelay 1 (1, 1) = 1125"
proof -
  have b: "bitLength 250 = 8" using bitLength_eq[of 7 250] by simp
  have "bitLength 2250 = 12" using bitLength_eq[of 11 2250] by simp
  then show ?thesis
    by (simp add: backoffDelay_def round53_def b roundHalfEven_def Let_def)
qed

lemma onerror_arms:
  assumes "recoverableError err" and "rng s = r # rs"
  shows "timers (onerror err s) \<noteq> [] \<and>
     action (last (timers (onerror err s))) = RecoveryRestart \<and>
     restartTimer (onerror err s) = Some (tid (last (timers (onerror err s)))) \<and>
     errorRetryCount (onerror err s) = errorRetryCount s + 1 \<and>
     delay (last (timers (onerror err s))) = backoffDelay (errorRetryCount s + 1) r"
  using assms
  by (simp add: onerror_recoverable mathRandom_def Let_def setRestartTimer_def
      clearRestartTimer_def clearTimeout_def onVoiceStatusChange_def emit_def
      split: option.split)

text \<open>
  C3, as the code has it. For every recoverable recognition error the handler arms a
  timeout whose delay, with \<open>n\<close> the attempt count after the increment (so \<open>n \<ge> 1\<close>) and
  \<open>Math.random()\<close> a double in \<open>[0, 1)\<close>, is the binary64 sum of \<open>min(30000, 500 * 2^n)\<close> and
  the binary64 product of \<open>Math.random()\<close> and 250; it lies in the closed interval from
  \<open>min(30000, 500 * 2^n)\<close> to \<open>min(30000, 500 * 2^n) + 250\<close>.
\<close>

theorem backoff_delay_interval:
  assumes "recoverableError err" and "rng s = (m, j) # rs" and "unitDouble (m, j)"
  shows "let s' = onerror err s; n = errorRetryCount s'; t = last (timers s')
         in timers s' \<noteq> [] \<and> action t = RecoveryRestart \<and> restartTimer s' = Some (tid t) \<and>
            n = errorRetryCount s + 1 \<and> 1 \<le> n \<and>
            delay t = backoffDelay n (m, j) \<and>
            real (min 30000 (500 * 2 ^ n)) \<le> delay t \<and>
            delay t \<le> real (min 30000 (500 * 2 ^ n)) + 250"
proof -
  from assms(3) have "m < 2 ^ j" by simp
  from backoffDelay_bounds[OF this, of "errorRetryCount s + 1"]
    onerror_arms[OF assms(1,2)]
  show ?thesis
    unfolding Let_def by simp
qed

theorem backoff_delay_interval_witness:
  "recoverableError ''network'' \<and> unitDouble (1, 1) \<and>
   delay (last (timers (onerror ''network'' exampleListening))) = 1125 \<and>
   errorRetryCount (onerror ''network'' exampleListening) = 1"
proof -
  have r: "recoverableError ''network''"
    by (simp add: recoverableError_def ignoredError_def fatalError_def)
  have g: "rng exampleListening = (1, 1) # [(1, 2)]"
    by (simp add: exampleListening_eq)
  have u: "unitDouble (1, 1)" by simp
  have e: "errorRetryCount exampleListening = 0"
    by (simp add: exampleListening_eq)
  note T = backoff_delay_interval[OF r g u, unfolded Let_def]
  from T e have n: "errorRetryCount (onerror ''network'' exampleListening) = 1"
    by simp
  from T have "delay (last (timers (onerror ''network'' exampleListening))) =
      backoffDelay (errorRetryCount (onerror ''network'' exampleListening)) (1, 1)"
    by blast
  then have "delay (last (timers (onerror ''network'' exampleListening))) = 1125"
    by (simp only: n backoffDelay_half)
  with r u n show ?thesis by blast
qed

text \<open>
  C3, as stated, fails at the upper end: when \<open>Math.random()\<close> returns \<open>1 - 2^-52\<close>, the
  product with 250 rounds to \<open>250 - 2^-44\<close> and its sum with 1000 rounds to 1250, so
  the delay of the first retry is exactly \<open>min(30000, 500 * 2^1) + 250\<close>.
\<close>

theorem backoff_delay_reaches_upper_end:
  "recoverableError ''network'' \<and> unitDouble (4503599627370495, 52) \<and>
   real 4503599627370495 / 2 ^ 52 < (1::real) \<and>
   errorRetryCount (onerror ''network'' exampleNearOne) = 1 \<and>
   delay (last (timers (onerror ''network'' exampleNearOne))) = 1250 \<and>
   \<not> delay (last (timers (onerror ''network'' exampleNearOne))) <
       real (min 30000 (500 * 2 ^ 1)) + 250"
proof -
  have r: "recoverableError ''network''"
    by (simp add: recoverableError_def ignoredError_def fatalError_def)
  have g: "rng exampleNearOne = (4503599627370495, 52) # []"
    "errorRetryCount exampleNearOne = 0"
    by (simp_all add: exampleNearOne_def exampleListening_eq)
  from onerror_arms[OF r g(1)] g(2)
  have "errorRetryCount (onerror ''network'' exampleNearOne) = 1"
    "delay (last (timers (onerror ''network'' exampleNearOne))) = 1250"
    by (simp_all add: backoffDelay_near_one[unfolded One_nat_def])
  with r show ?thesis by simp
qed

text \<open>
  C6. \<open>speak("")\<close>, and \<open>speak(x)\<close> for every text \<open>x\<close> when \<open>provideFeedback\<close> is false,
  return a promise that is already resolved and leave the controller and the host
  exactly as they were: no utterance is started, none is cancelled, recognition is
  neither suspended nor resumed.
\<close>

theorem speak_disabled_or_empty:
  "speak [] s = (Resolved, s) \<and>
   (\<not> provideFeedback (config s) \<longrightarrow> speak text s = (Resolved, s))"
  by (simp add: speak_def)

theorem speak_disabled_or_empty_witness:
  "\<not> provideFeedback (config exampleSilent) \<and> isListening exampleSilent \<and>
   speak ''hello'' exampleSilent = (Resolved, exampleSilent)"
proof -
  have "\<not> provideFeedback (config exampleSilent) \<and> isListening exampleSilent"
    by (simp add: exampleSilent_def exampleListening_eq updateConfig_def mergeConfig_def
        noOptions_def Let_def)
  then show ?thesis
    using speak_disabled_or_empty[of exampleSilent "''hello''"] by blast
qed

text \<open>
  C9. In every state the controller reaches, \<open>stopListening\<close> leaves no timeout pending,
  aborts the recognition session, marks the controller as not listening and reports
  the status "Voice paused"; the configuration, and so \<open>autoStart\<close>, is unchanged.
\<close>

theorem stop_clears_aborts_pauses:
  "let s = run es (newVoiceController opts h); s' = stopListening s
   in timers s' = [] \<and>
      effects s' =
        effects s @ (if recognition s then [RecAbort] else []) @ [Status ''Voice paused'' False] \<and>
      isListening s' = False \<and> config s' = config s \<and>
      autoStart (config s') = autoStart (config s)"
proof -
  have "timer_inv (run es (newVoiceController opts h))"
    by (rule timer_inv_run[OF timer_inv_new])
  from timer_inv_clear[OF this] show ?thesis
    by (simp add: Let_def stopListening_def onVoiceStatusChange_def emit_def
        clearRestartTimer_def clearTimeout_def split: option.split)
qed

theorem stop_clears_aborts_pauses_witness:
  "map tid (timers (run [RecOnStart, RecOnEnd] (newVoiceController noOptions exampleHost))) = [1] \<and>
   timers (stopListening (run [RecOnStart, RecOnEnd] (newVoiceController noOptions exampleHost))) = [] \<and>
   autoStart (config (stopListening
      (run [RecOnStart, RecOnEnd] (newVoiceController noOptions exampleHost))))"
proof -
  have "run [RecOnStart, RecOnEnd] (newVoiceController noOptions exampleHost) =
          step RecOnEnd exampleListening"
    by (simp add: exampleListening_def)
  moreover have "map tid (timers (step RecOnEnd exampleListening)) = [1] \<and>
     autoStart (config (step RecOnEnd exampleListening))"
    by (simp add: exampleListening_eq onend_def Let_def clearRestartTimer_def setRestartTimer_def)
  ultimately show ?thesis
    using stop_clears_aborts_pauses[of "[RecOnStart, RecOnEnd]" noOptions exampleHost]
    by (simp add: Let_def)
qed

section \<open>The retry counter\<close>

lemma erc_emit [simp]: "errorRetryCount (emit e s) = errorRetryCount s"
  by (simp add: emit_def)

lemma erc_status [simp]: "errorRetryCount (onVoiceStatusChange m b s) = errorRetryCount s"
  by (simp add: onVoiceStatusChange_def)

lemma erc_speak [simp]: "errorRetryCount (snd (speak text s)) = errorRetryCount s"
  by (simp add: speak_def Let_def)

lemma erc_feedback [simp]: "errorRetryCount (feedback text s) = errorRetryCount s"
  by (simp add: feedback_def)

lemma erc_stopSpeaking [simp]: "errorRetryCount (stopSpeaking s) = errorRetryCount s"
  by (simp add: stopSpeaking_def)

lemma erc_toggleLoop:
  "toggleLoop ts c s = Some s' \<Longrightarrow> errorRetryCount s' = errorRetryCount s"
proof (induction ts)
  case Nil
  then show ?case by simp
next
  case (Cons a ts)
  obtain name kws where a: "a = (name, kws)" by (cases a)
  show ?case
  proof (cases "regexTest kws c \<and> (regexTest onModifier c \<or> regexTest offModifier c)")
    case True
    with Cons.prems a show ?thesis by (auto simp: Let_def split: if_splits)
  next
    case False
    with Cons.prems a Cons.IH toggleLoop_skip[OF False] show ?thesis by simp
  qed
qed

lemma erc_processVoiceCommand [simp]:
  "errorRetryCount (processVoiceCommand c s) = errorRetryCount s"
  by (auto simp: processVoiceCommand_def Let_def erc_toggleLoop split: option.split)

lemma erc_onresult: "errorRetryCount (onresult results s) = 0"
  by (simp add: onresult_def Let_def split: option.split)

lemma erc_clearRestartTimer [simp]:
  "errorRetryCount (clearRestartTimer s) = errorRetryCount s"
  by (simp add: clearRestartTimer_def clearTimeout_def split: option.split)

lemma erc_onerror:
  "errorRetryCount (onerror err s) =
     (if recoverableError err then errorRetryCount s + 1 else errorRetryCount s)"
proof (cases "recoverableError err")
  case True
  then show ?thesis
    by (simp add: onerror_recoverable Let_def mathRandom_def setRestartTimer_def
        split: list.split)
next
  case False
  then consider "ignoredError err" | "fatalError err"
    by (auto simp: recoverableError_def)
  then show ?thesis
    using False by cases (simp_all add: onerror_ignored onerror_fatal)
qed

lemma erc_startListening:
  "errorRetryCount s \<le> errorRetryCount (startListening s) \<and>
   errorRetryCount (startListening s) \<le> errorRetryCount s + 1"
  by (simp add: startListening_def Let_def erc_onerror)

lemma erc_onend [simp]: "errorRetryCount (onend s) = errorRetryCount s"
  by (simp add: onend_def Let_def setRestartTimer_def)

lemma erc_utterance_onend:
  "errorRetryCount s \<le> errorRetryCount (utterance_onend u s) \<and>
   errorRetryCount (utterance_onend u s) \<le> errorRetryCount s + 1"
  using erc_startListening[of "clearRestartTimer (s\<lparr>currentUtterance := None, isSpeaking := False\<rparr>)"]
  by (simp add: utterance_onend_def Let_def)

lemma erc_utterance_onerror:
  "errorRetryCount s \<le> errorRetryCount (utterance_onerror u err s) \<and>
   errorRetryCount (utterance_onerror u err s) \<le> errorRetryCount s + 1"
  using erc_startListening[of "clearRestartTimer (s\<lparr>currentUtterance := None, isSpeaking := False\<rparr>)"]
  by (simp add: utterance_onerror_def Let_def)

lemma erc_timerCallback:
  "errorRetryCount s \<le> errorRetryCount (timerCallback a (clearTimeout t s)) \<and>
   errorRetryCount (timerCallback a (clearTimeout t s)) \<le> errorRetryCount s + 1"
  using erc_startListening[of "clearTimeout t s"]
    erc_startListening[of "clearTimeout t s\<lparr>isErrorRecovery := False\<rparr>"]
  by (cases a) (simp_all add: clearTimeout_def)

lemma erc_step:
  "\<not> isResult e \<Longrightarrow>
     errorRetryCount s \<le> errorRetryCount (step e s) \<and>
     errorRetryCount (step e s) \<le> errorRetryCount s + 1"
proof (cases e)
  case Start
  then show ?thesis using erc_startListening[of s] by simp
next
  case (TimerFire t)
  then show ?thesis using erc_timerCallback[of s _ t] by (simp split: option.split)
next
  case (UttOnEnd u)
  then show ?thesis
    using erc_utterance_onend[of "dequeue u s"] by (simp add: dequeue_def split: option.split)
next
  case (UttOnError u err)
  then show ?thesis
    using erc_utterance_onerror[of "dequeue u s"] by (simp add: dequeue_def split: option.split)
next
  case (RecOnResult r)
  assume "\<not> isResult e"
  with RecOnResult show ?thesis by simp
qed (simp_all add: erc_onerror stopListening_def destroy_def updateConfig_def onstart_def Let_def)

lemma erc_run:
  "list_all (\<lambda>e. \<not> isResult e) es \<Longrightarrow> errorRetryCount s \<le> errorRetryCount (run es s)"
proof (induction es arbitrary: s)
  case Nil
  then show ?case by simp
next
  case (Cons e es)
  then have "errorRetryCount s \<le> errorRetryCount (step e s)"
    using erc_step[of e s] by simp
  also have "\<dots> \<le> errorRetryCount (run es (step e s))"
    using Cons by simp
  finally show ?case by simp
qed

lemma exampleRetried_eq:
  "exampleRetried =
     \<lparr>recognition = True, recLang = ''en-US'', isListening = True, speechSynthesis = True,
      currentUtterance = None,
      config = \<lparr>autoStart = True, language = ''en-US'', provideFeedback = True\<rparr>,
      restartTimer = Some 1, errorRetryCount = 1, isErrorRecovery = False, isSpeaking = False,
      started = True, timers = [], nextTimer = 2, queue = [], nextUtt = 0,
      rng = [(1, 2)], batteryStatus = ''Battery at 80 percent'',
      effects = [RecStart, Status ''Listening...'' True,
                 Status ''Voice connection issue. Retrying...'' False, RecStart,
                 Status ''Listening...'' True]\<rparr>"
  by (simp add: exampleRetried_def exampleListening_eq onerror_def onend_def startListening_def
      clearRestartTimer_def clearTimeout_def setRestartTimer_def mathRandom_def emit_def
      onstart_def onVoiceStatusChange_def Let_def)

text \<open>
  C2, as the code has it. The retry counter is reset to 0 by every recognition result
  event, whether or not a transcript comes out of it, and by nothing else: every other
  event or operation leaves the counter as it is or adds one to it. Reaching the
  listening state (the engine's start event) leaves it unchanged, a recoverable error
  adds one, and along any sequence of events without a result event the counter never
  decreases.
\<close>

theorem retry_count_reset_by_result_only:
  "errorRetryCount (step (RecOnResult results) s) = 0 \<and>
   (\<not> isResult e \<longrightarrow>
      errorRetryCount s \<le> errorRetryCount (step e s) \<and>
      errorRetryCount (step e s) \<le> errorRetryCount s + 1) \<and>
   errorRetryCount (step RecOnStart s) = errorRetryCount s \<and>
   (recoverableError err \<longrightarrow>
      errorRetryCount (step (RecOnError err) s) = errorRetryCount s + 1) \<and>
   (list_all (\<lambda>e. \<not> isResult e) es \<longrightarrow> errorRetryCount s \<le> errorRetryCount (run es s))"
  using erc_step[of e s] erc_run[of es s]
  by (simp add: erc_onresult erc_onerror onstart_def)

theorem retry_count_reset_by_result_only_witness:
  "errorRetryCount exampleRetried = 1 \<and>
   errorRetryCount (step (RecOnError ''network'') exampleRetried) = 2 \<and>
   errorRetryCount (step RecOnStart exampleRetried) = 1 \<and>
   1 \<le> errorRetryCount (step Start exampleRetried) \<and>
   1 \<le> errorRetryCount (run [RecOnEnd, Start, RecOnStart] exampleRetried) \<and>
   errorRetryCount (step (RecOnResult (Some [[''open settings'']])) exampleRetried) = 0"
proof -
  have r: "recoverableError ''network''"
    by (simp add: recoverableError_def ignoredError_def fatalError_def)
  have n: "errorRetryCount exampleRetried = 1"
    by (simp add: exampleRetried_eq)
  have q: "list_all (\<lambda>e. \<not> isResult e) [RecOnEnd, Start, RecOnStart]" "\<not> isResult Start"
    by simp_all
  show ?thesis
    using retry_count_reset_by_result_only[of "Some [[''open settings'']]" exampleRetried Start
        "''network''" "[RecOnEnd, Start, RecOnStart]"] r n q
    by simp
qed

text \<open>
  C2, as stated, fails: a result event that carries an empty transcript parses
  nothing (no status, no command), and still resets the counter from 1 to 0.
\<close>

theorem retry_count_reset_without_transcript:
  "transcriptOf (Some [['''']]) = None \<and>
   errorRetryCount exampleRetried = 1 \<and>
   errorRetryCount (step (RecOnResult (Some [['''']])) exampleRetried) = 0 \<and>
   effects (step (RecOnResult (Some [['''']])) exampleRetried) = effects exampleRetried"
  by (simp add: transcriptOf_def exampleRetried_eq onresult_def trim_def toLowerCase_def Let_def)

lemma onresult_transcriptOf:
  "onresult results s =
     (case transcriptOf results of
        None \<Rightarrow> s\<lparr>errorRetryCount := 0\<rparr>
      | Some transcript \<Rightarrow>
          processVoiceCommand transcript
            (onVoiceStatusChange (''Heard: '' @ [CHR 0x22] @ transcript @ [CHR 0x22]) True
               (s\<lparr>errorRetryCount := 0\<rparr>)))"
  by (simp add: onresult_def transcriptOf_def Let_def split: option.split)

section \<open>Fatal errors\<close>

text \<open>
  C4. After a fatal recognition error no start is to recur automatically. The code
  does not keep this when a backoff timeout is pending at the moment of the error: the
  fatal branch sets \<open>autoStart\<close> to false and arms no timer, but it does not clear the
  pending one either. Here the controller is built with the defaults, the application
  calls start while the first session is being set up (the call throws and arms the
  backoff), the engine reports that permission was denied and ends the session; the
  timeout is still pending then, and when it fires, start is called again.
\<close>

theorem fatal_error_keeps_pending_timer:
  "effects (run [Start, RecOnError ''not-allowed'', RecOnEnd]
      (newVoiceController noOptions exampleHost)) =
     [RecStart, RecStartThrew, Status ''Voice connection issue. Retrying...'' False,
      Status ''Microphone permission denied'' False] \<and>
   autoStart (config (run [Start, RecOnError ''not-allowed'', RecOnEnd]
      (newVoiceController noOptions exampleHost))) = False \<and>
   map tid (timers (run [Start, RecOnError ''not-allowed'', RecOnEnd]
      (newVoiceController noOptions exampleHost))) = [1] \<and>
   effects (run [Start, RecOnError ''not-allowed'', RecOnEnd, TimerFire 1]
      (newVoiceController noOptions exampleHost)) =
     [RecStart, RecStartThrew, Status ''Voice connection issue. Retrying...'' False,
      Status ''Microphone permission denied'' False, RecStart]"
  by (simp add: newVoiceController_def noOptions_def exampleHost_def init_def
      setupVoiceRecognition_def mergeConfig_def defaults_def startListening_def
      clearRestartTimer_def clearTimeout_def emit_def onerror_def onend_def Let_def
      mathRandom_def onVoiceStatusChange_def setRestartTimer_def)

section \<open>Speaking while listening\<close>


















end
